theory Spec2Isabelle
  imports Main
begin

section \<open>Go strings and the library functions discovery.go calls\<close>

text \<open>
  A Go \<open>string\<close> and a \<open>[]byte\<close> are byte sequences; \<^typ>\<open>string\<close> is a list of 8-bit
  characters, so both are modelled by it. The functions of the package \<open>strings\<close> below
  follow the Go documentation, for the arguments \<open>discovery.go\<close> gives them: the
  separator of \<open>Split\<close> and the pattern of \<open>Replace\<close> are non-empty constants there, and
  the models say nothing meaningful about an empty one.
\<close>

type_synonym bytes = string

definition HasPrefix :: "string \<Rightarrow> string \<Rightarrow> bool" where
  \<comment> \<open>\<open>len(s) >= len(prefix) && s[:len(prefix)] == prefix\<close>\<close>
  "HasPrefix s pre = (length pre \<le> length s \<and> take (length pre) s = pre)"

fun Contains :: "string \<Rightarrow> string \<Rightarrow> bool" where
  \<comment> \<open>\<open>strings.Contains(s, substr)\<close>: \<open>substr\<close> starts at some position of \<open>s\<close>\<close>
  "Contains [] substr = (substr = [])"
| "Contains (c # cs) substr = (HasPrefix (c # cs) substr \<or> Contains cs substr)"

fun Replace :: "string \<Rightarrow> string \<Rightarrow> string \<Rightarrow> int \<Rightarrow> string" where
  \<comment> \<open>\<open>strings.Replace(s, old, new, n)\<close>: the first \<open>n\<close> non-overlapping instances of
      \<open>old\<close>, from the left, replaced by \<open>new\<close>; no limit when \<open>n < 0\<close>\<close>
  "Replace [] old new n = []"
| "Replace (c # cs) old new n =
     (if n = 0 then c # cs
      else if HasPrefix (c # cs) old
        then new @ Replace (drop (length old - 1) cs) old new (n - 1)
      else c # Replace cs old new n)"

fun genSplit :: "string \<Rightarrow> string \<Rightarrow> string \<Rightarrow> string list" where
  \<comment> \<open>the scan of \<open>strings.Split\<close>: \<open>cur\<close> is the piece read since the last separator\<close>
  "genSplit [] sep cur = [cur]"
| "genSplit (c # cs) sep cur =
     (if HasPrefix (c # cs) sep
        then cur # genSplit (drop (length sep - 1) cs) sep []
      else genSplit cs sep (cur @ [c]))"

definition Split :: "string \<Rightarrow> string \<Rightarrow> string list" where
  \<comment> \<open>\<open>strings.Split(s, sep)\<close>: the pieces of \<open>s\<close> between the instances of \<open>sep\<close>\<close>
  "Split s sep = genSplit s sep []"

section \<open>The parsed reply\<close>

text \<open>
  \<open>mxj.NewMapXml\<close> is a function of the library \<open>github.com/clbanning/mxj\<close>; it is a
  parameter of the model, returning either the message of its error or the parsed
  document. Of the document the code reads four values with \<open>ValueForPathString\<close> and
  drops the error that call returns along with the empty string, so a document is the
  partial map from paths to the strings found there.
\<close>

type_synonym mapXML = "string \<rightharpoonup> string"

definition ValueForPathString :: "mapXML \<Rightarrow> string \<Rightarrow> string" where
  "ValueForPathString mv path = (case mv path of None \<Rightarrow> [] | Some v \<Rightarrow> v)"

section \<open>Devices and errors\<close>

text \<open>
  Modelled from the spec: the declaration of the struct \<open>Device\<close> is in another file of
  the package; the spec gives it the string fields \<open>ID\<close>, \<open>Name\<close> and \<open>XAddr\<close>, which are
  also the only ones \<open>discovery.go\<close> writes. \<open>Device{}\<close> is the record of empty strings.
\<close>

record Device =
  ID :: string
  Name :: string
  XAddr :: string

text \<open>
  Go compares error values by identity. \<open>errWrongDiscoveryResponse\<close> is a variable of
  the package, so no library returns it; the error built at line 144 is a fresh value;
  an error of the package \<open>net\<close> carries its \<open>Timeout()\<close> flag; \<open>mxj\<close> returns errors of
  its own.
\<close>

datatype error =
    errWrongDiscoveryResponse
  | errNoXAddr
  | NetError string bool
  | XmlError string

fun isTimeout :: "error \<Rightarrow> bool" where
  \<comment> \<open>\<open>udpErr, ok := err.(net.Error); ok && udpErr.Timeout()\<close>\<close>
  "isTimeout (NetError msg timeout) = timeout"
| "isTimeout err = False"

section \<open>readDiscoveryResponse\<close>

fun deviceNameLoop :: "string list \<Rightarrow> string" where
  \<comment> \<open>lines 130 to 138: the loop over the scopes, left at the first name scope\<close>
  "deviceNameLoop [] = []"
| "deviceNameLoop (scope # scopes) =
     (if HasPrefix scope ''onvif://www.onvif.org/name/''
        then Replace (Replace scope ''onvif://www.onvif.org/name/'' [] 1) ''_'' '' '' (- 1)
      else deviceNameLoop scopes)"

definition readDiscoveryResponse ::
  "(bytes \<Rightarrow> string + mapXML) \<Rightarrow> string \<Rightarrow> bytes \<Rightarrow> Device \<times> error option" where
  "readDiscoveryResponse NewMapXml messageID buffer =
     (let result = \<lparr>ID = [], Name = [], XAddr = []\<rparr> in
      case NewMapXml buffer of
        Inl err \<Rightarrow> (result, Some (XmlError err))
      | Inr mapXML \<Rightarrow>
          let responseMessageID = ValueForPathString mapXML ''Envelope.Header.RelatesTo'' in
          if responseMessageID \<noteq> messageID then (result, Some errWrongDiscoveryResponse)
          else
            let deviceID = ValueForPathString mapXML
                  ''Envelope.Body.ProbeMatches.ProbeMatch.EndpointReference.Address'';
                deviceID = Replace deviceID ''urn:uuid'' [] 1;
                scopes = ValueForPathString mapXML
                  ''Envelope.Body.ProbeMatches.ProbeMatch.Scopes'';
                deviceName = deviceNameLoop (Split scopes '' '');
                xAddrs = ValueForPathString mapXML
                  ''Envelope.Body.ProbeMatches.ProbeMatch.XAddrs'';
                listXAddr = Split xAddrs '' ''
            in if length listXAddr = 0 then (result, Some errNoXAddr)
               else (result\<lparr>ID := deviceID, Name := deviceName, XAddr := listXAddr ! 0\<rparr>,
                     None))"

section \<open>StartDiscovery\<close>

text \<open>
  The network is the environment of the call: the identifier \<open>uuid.NewV4\<close> draws, the
  outcome of each of the five set-up calls (\<open>None\<close> when it succeeds), and what the
  successive calls of \<open>conn.ReadFromUDP\<close> return, in order: the buffer it has filled
  with a datagram, which is what the parser is given, or an error. The
  deadline armed from \<open>duration\<close> is what makes a read fail with a timeout. The probe
  document itself is sent and never read again, so it is left out.
\<close>

datatype read_event = Received bytes | Failed error

record network =
  uuidNewV4 :: string
  resolveLocal :: "error option"
  resolveMulticast :: "error option"
  listenUDP :: "error option"
  setDeadline :: "error option"
  writeToUDP :: "error option"
  readFromUDP :: "read_event list"

text \<open>
  The loop of lines 81 to 103. A script of reads that ends while the loop still
  listens gives \<open>None\<close>: the call has not returned.
\<close>

fun readLoop ::
  "(bytes \<Rightarrow> string + mapXML) \<Rightarrow> string \<Rightarrow> Device list \<Rightarrow> read_event list
     \<Rightarrow> (Device list \<times> error option) option" where
  "readLoop NewMapXml requestID discoveryResults [] = None"
| "readLoop NewMapXml requestID discoveryResults (Failed err # reads) =
     (if isTimeout err then Some (discoveryResults, None)
      else Some (discoveryResults, Some err))"
| "readLoop NewMapXml requestID discoveryResults (Received buffer # reads) =
     (case readDiscoveryResponse NewMapXml requestID buffer of
        (device, err) \<Rightarrow>
          if err \<noteq> None \<and> err \<noteq> Some errWrongDiscoveryResponse
            then Some (discoveryResults, err)
          else readLoop NewMapXml requestID (discoveryResults @ [device]) reads)"

definition StartDiscovery ::
  "(bytes \<Rightarrow> string + mapXML) \<Rightarrow> network \<Rightarrow> (Device list \<times> error option) option" where
  "StartDiscovery NewMapXml net =
     (let discoveryResults = [];
          requestID = ''uuid:'' @ uuidNewV4 net
      in case resolveLocal net of Some err \<Rightarrow> Some (discoveryResults, Some err) | None \<Rightarrow>
         case resolveMulticast net of Some err \<Rightarrow> Some (discoveryResults, Some err) | None \<Rightarrow>
         case listenUDP net of Some err \<Rightarrow> Some (discoveryResults, Some err) | None \<Rightarrow>
         case setDeadline net of Some err \<Rightarrow> Some (discoveryResults, Some err) | None \<Rightarrow>
         case writeToUDP net of Some err \<Rightarrow> Some (discoveryResults, Some err) | None \<Rightarrow>
         readLoop NewMapXml requestID discoveryResults (readFromUDP net))"

section \<open>Words of the specification\<close>

text \<open>
  The specification speaks of whitespace-separated tokens. Following its words, and not
  the code: whitespace is what Go's \<open>unicode.IsSpace\<close> accepts among the bytes below 128,
  and the first token of a list is its first maximal run of other characters.
\<close>

definition isSpace :: "char \<Rightarrow> bool" where
  "isSpace c = (c = CHR '' '' \<or> c = CHR 0x09 \<or> c = CHR 0x0A \<or> c = CHR 0x0B
                \<or> c = CHR 0x0C \<or> c = CHR 0x0D)"

definition specFirstToken :: "string \<Rightarrow> string" where
  "specFirstToken s = takeWhile (\<lambda>c. \<not> isSpace c) (dropWhile isSpace s)"

section \<open>Concrete networks and replies\<close>

text \<open>
  Instances of the parameters, to run the model on: a reply document with the four
  values the code reads, a parser given by the table of the datagrams it accepts (it
  reports a syntax error on any other), and a network whose set-up succeeds.
\<close>

definition probeMatch :: "string \<Rightarrow> string \<Rightarrow> string \<Rightarrow> string \<Rightarrow> mapXML" where
  "probeMatch relatesTo address scopes xAddrs =
     [''Envelope.Header.RelatesTo'' \<mapsto> relatesTo,
      ''Envelope.Body.ProbeMatches.ProbeMatch.EndpointReference.Address'' \<mapsto> address,
      ''Envelope.Body.ProbeMatches.ProbeMatch.Scopes'' \<mapsto> scopes,
      ''Envelope.Body.ProbeMatches.ProbeMatch.XAddrs'' \<mapsto> xAddrs]"

definition tableNewMapXml :: "(bytes \<times> mapXML) list \<Rightarrow> bytes \<Rightarrow> string + mapXML" where
  "tableNewMapXml table buffer =
     (case map_of table buffer of
        None \<Rightarrow> Inl ''xml: syntax error''
      | Some mapXML \<Rightarrow> Inr mapXML)"

definition openNetwork :: "string \<Rightarrow> read_event list \<Rightarrow> network" where
  "openNetwork uuid reads =
     \<lparr>uuidNewV4 = uuid, resolveLocal = None, resolveMulticast = None, listenUDP = None,
      setDeadline = None, writeToUDP = None, readFromUDP = reads\<rparr>"

definition setupSucceeds :: "network \<Rightarrow> bool" where
  "setupSucceeds net =
     (resolveLocal net = None \<and> resolveMulticast net = None \<and> listenUDP net = None
      \<and> setDeadline net = None \<and> writeToUDP net = None)"

text \<open>
  Seven replies: two devices answering the probe of the session \<open>uuid:7f3a\<close>, a reply
  to another session, a reply without addresses, one whose endpoint address repeats the
  URN scheme, one whose addresses are separated by a line feed, and one whose endpoint
  address has the URN scheme after a first character and whose name has two
  underscores.
\<close>

definition frontDoor :: mapXML where
  "frontDoor = probeMatch ''uuid:7f3a'' ''urn:uuid:4d454930-c4d6''
     ''onvif://www.onvif.org/type/video_encoder onvif://www.onvif.org/name/Front_Door''
     ''http://192.168.1.10/onvif/device_service http://192.168.1.10:8080/onvif''"

definition backYard :: mapXML where
  "backYard = probeMatch ''uuid:7f3a'' ''urn:uuid:5e565a41-d5e7''
     ''onvif://www.onvif.org/name/Back_Yard onvif://www.onvif.org/name/Front_Door''
     ''http://192.168.1.11/onvif/device_service''"

definition stranger :: mapXML where
  "stranger = probeMatch ''uuid:0b1e'' ''urn:uuid:6f676b52-e6f8''
     ''onvif://www.onvif.org/name/Lobby'' ''http://192.168.1.12/onvif/device_service''"

definition noAddress :: mapXML where
  "noAddress = probeMatch ''uuid:7f3a'' ''urn:uuid:70787c63-f709''
     ''onvif://www.onvif.org/name/Garage'' []"

definition nestedUrn :: mapXML where
  "nestedUrn = probeMatch ''uuid:7f3a'' ''urn:uuid:urn:uuid:81898d74''
     ''onvif://www.onvif.org/type/ptz'' ''http://192.168.1.13/onvif/device_service''"

definition newlineList :: mapXML where
  "newlineList = probeMatch ''uuid:7f3a'' ''urn:uuid:929a9e85-192b''
     ''onvif://www.onvif.org/type/ptz''
     (''http://192.168.1.14/onvif/device_service'' @ [CHR 0x0A]
        @ ''http://192.168.1.14:8080/onvif'')"

definition sideGate :: mapXML where
  "sideGate = probeMatch ''uuid:7f3a'' ''xurn:uuid:a3abaf96''
     ''onvif://www.onvif.org/name/Side_Gate_2 onvif://www.onvif.org/type/ptz''
     ''http://192.168.1.15/onvif/device_service''"

definition sampleNewMapXml :: "bytes \<Rightarrow> string + mapXML" where
  "sampleNewMapXml = tableNewMapXml
     [(''datagram 1'', frontDoor), (''datagram 2'', backYard), (''datagram 3'', stranger),
      (''datagram 4'', noAddress), (''datagram 5'', nestedUrn), (''datagram 6'', newlineList),
      (''datagram 7'', sideGate)]"

section \<open>Facts about the string functions\<close>

lemma HasPrefix_single: "HasPrefix (c # cs) [d] \<longleftrightarrow> c = d"
  by (simp add: HasPrefix_def)

lemma HasPrefix_append: "HasPrefix (pre @ r) pre"
  by (simp add: HasPrefix_def)

lemma HasPrefix_iff: "HasPrefix s pre \<longleftrightarrow> (\<exists>post. s = pre @ post)"
proof
  assume "HasPrefix s pre"
  then have "s = pre @ drop (length pre) s"
    unfolding HasPrefix_def by (metis append_take_drop_id)
  then show "\<exists>post. s = pre @ post" ..
next
  assume "\<exists>post. s = pre @ post"
  then show "HasPrefix s pre" by (auto simp: HasPrefix_def)
qed

text \<open>\<open>Contains\<close> is the substring relation.\<close>

lemma Contains_iff: "Contains s substr \<longleftrightarrow> (\<exists>before after. s = before @ substr @ after)"
proof (induction s)
  case Nil
  then show ?case by simp
next
  case (Cons c cs)
  show ?case
  proof
    assume "Contains (c # cs) substr"
    then consider "HasPrefix (c # cs) substr" | "Contains cs substr" by auto
    then show "\<exists>before after. c # cs = before @ substr @ after"
    proof cases
      case 1
      then obtain post where "c # cs = substr @ post" using HasPrefix_iff by blast
      then have "c # cs = [] @ substr @ post" by simp
      then show ?thesis by blast
    next
      case 2
      with Cons obtain before after where "cs = before @ substr @ after" by blast
      then have "c # cs = (c # before) @ substr @ after" by simp
      then show ?thesis by blast
    qed
  next
    assume "\<exists>before after. c # cs = before @ substr @ after"
    then obtain before after where eq: "c # cs = before @ substr @ after" by blast
    show "Contains (c # cs) substr"
    proof (cases before)
      case Nil
      with eq have "HasPrefix (c # cs) substr" using HasPrefix_iff by auto
      then show ?thesis by simp
    next
      case (Cons b before')
      with eq have "cs = before' @ substr @ after" by simp
      with Cons.IH show ?thesis by auto
    qed
  qed
qed

lemma genSplit_not_Nil: "genSplit s sep cur \<noteq> []"
  by (induction s sep cur rule: genSplit.induct) simp_all

lemma Split_not_Nil: "Split s sep \<noteq> []"
  by (simp add: Split_def genSplit_not_Nil)

lemma hd_genSplit_space:
  "hd (genSplit s '' '' cur) = cur @ takeWhile (\<lambda>c. c \<noteq> CHR '' '') s"
  by (induction s arbitrary: cur) (simp_all add: HasPrefix_single)

lemma Split_space_first:
  "Split s '' '' ! 0 = takeWhile (\<lambda>c. c \<noteq> CHR '' '') s"
  using hd_genSplit_space [of s "[]"] genSplit_not_Nil [of s "'' ''" "[]"]
  by (simp add: Split_def hd_conv_nth)

lemma Replace_zero: "Replace s old new 0 = s"
  by (cases s) simp_all

lemma Replace_prefix_once:
  assumes "old \<noteq> []"
  shows "Replace (old @ r) old new 1 = new @ r"
proof -
  obtain c cs where old: "old = c # cs" using assms by (cases old) auto
  have "HasPrefix (c # cs @ r) (c # cs)"
    using HasPrefix_append [of "c # cs" r] by simp
  then show ?thesis
    by (simp add: old Replace_zero)
qed

lemma Replace_absent: "\<not> Contains s old \<Longrightarrow> Replace s old new n = s"
  by (induction s) simp_all

text \<open>
  \<open>Replace\<close> with the count 1 cuts the leftmost instance of the pattern, the one with
  no instance beginning before it, and changes nothing else.
\<close>

lemma Contains_length: "Contains s pat \<Longrightarrow> length pat \<le> length s"
  by (induction s) (auto simp: HasPrefix_def)

lemma HasPrefix_within:
  "HasPrefix (ys @ zs) pat \<Longrightarrow> length pat \<le> length ys \<Longrightarrow> HasPrefix ys pat"
  by (simp add: HasPrefix_def)

lemma HasPrefix_extend: "HasPrefix ys pat \<Longrightarrow> HasPrefix (ys @ zs) pat"
  by (auto simp: HasPrefix_iff)

lemma butlast_last_split:
  "pat \<noteq> [] \<Longrightarrow> before @ pat @ after = (before @ butlast pat) @ last pat # after"
  by simp

lemma Replace_leftmost:
  assumes "old \<noteq> []" and "\<not> Contains (before @ butlast old) old"
  shows "Replace (before @ old @ after) old new 1 = before @ new @ after"
  using assms(2)
proof (induction before)
  case Nil
  show ?case using Replace_prefix_once [OF assms(1)] by simp
next
  case (Cons c bs)
  from Cons.prems have no: "\<not> HasPrefix (c # bs @ butlast old) old"
    and rest: "\<not> Contains (bs @ butlast old) old" by simp_all
  have len: "length old \<le> length (c # bs @ butlast old)"
    using assms(1) by simp
  have "c # bs @ old @ after = (c # bs @ butlast old) @ last old # after"
    using butlast_last_split [OF assms(1), of "c # bs" after] by simp
  with no len have "\<not> HasPrefix (c # bs @ old @ after) old"
    using HasPrefix_within by metis
  with Cons.IH [OF rest] show ?case by simp
qed

lemma Contains_leftmost:
  assumes "pat \<noteq> []" and "Contains s pat"
  shows "\<exists>before after. s = before @ pat @ after \<and> \<not> Contains (before @ butlast pat) pat"
  using assms(2)
proof (induction s)
  case Nil
  with assms(1) show ?case by simp
next
  case (Cons c cs)
  show ?case
  proof (cases "HasPrefix (c # cs) pat")
    case True
    then obtain after where "c # cs = [] @ pat @ after"
      using HasPrefix_iff by auto
    moreover have "\<not> Contains ([] @ butlast pat) pat"
    proof
      assume "Contains ([] @ butlast pat) pat"
      then have "Contains (butlast pat) pat" by simp
      then have "length pat \<le> length (butlast pat)"
        by (rule Contains_length)
      moreover have "length (butlast pat) < length pat"
        using assms(1) by (cases pat rule: rev_cases) simp_all
      ultimately show False by linarith
    qed
    ultimately show ?thesis by blast
  next
    case False
    with Cons.prems have "Contains cs pat" by simp
    with Cons.IH obtain before after where
      eq: "cs = before @ pat @ after" and left: "\<not> Contains (before @ butlast pat) pat"
      by blast
    have "c # cs = (c # before @ butlast pat) @ last pat # after"
      using eq butlast_last_split [OF assms(1), of "c # before" after] by simp
    with False have "\<not> HasPrefix (c # before @ butlast pat) pat"
      using HasPrefix_extend by metis
    with left have "\<not> Contains ((c # before) @ butlast pat) pat" by simp
    moreover have "c # cs = (c # before) @ pat @ after" using eq by simp
    ultimately show ?thesis by blast
  qed
qed

lemma Replace_char_all:
  "n < 0 \<Longrightarrow> Replace s [a] [b] n = map (\<lambda>c. if c = a then b else c) s"
  by (induction s arbitrary: n) (simp_all add: HasPrefix_single)

lemma Replace_once_cases:
  assumes "old \<noteq> []"
  shows "(\<not> Contains s old \<and> Replace s old [] 1 = s)
       \<or> (\<exists>before after. s = before @ old @ after
             \<and> \<not> Contains (before @ butlast old) old
             \<and> Replace s old [] 1 = before @ after)"
proof (cases "Contains s old")
  case False
  then show ?thesis by (simp add: Replace_absent)
next
  case True
  with assms obtain before after where
    eq: "s = before @ old @ after" and left: "\<not> Contains (before @ butlast old) old"
    using Contains_leftmost by blast
  from Replace_leftmost [OF assms left, of after "[]"] eq
  have "Replace s old [] 1 = before @ after" by simp
  with eq left show ?thesis by blast
qed

lemma deviceNameLoop_find:
  "deviceNameLoop scopes =
     (case find (\<lambda>scope. HasPrefix scope ''onvif://www.onvif.org/name/'') scopes of
        None \<Rightarrow> []
      | Some scope \<Rightarrow>
          Replace (Replace scope ''onvif://www.onvif.org/name/'' [] 1) ''_'' '' '' (- 1))"
  by (induction scopes) simp_all

section \<open>Facts about the loop\<close>

lemma readLoop_invariant:
  assumes "readLoop NewMapXml requestID acc reads = Some (ds, err)"
    and "\<forall>d \<in> set acc. Q d"
    and "\<forall>b. Received b \<in> set reads
           \<longrightarrow> Q (fst (readDiscoveryResponse NewMapXml requestID b))"
  shows "\<forall>d \<in> set ds. Q d"
  using assms
proof (induction NewMapXml requestID acc reads rule: readLoop.induct)
  case (1 NewMapXml requestID discoveryResults)
  then show ?case by simp
next
  case (2 NewMapXml requestID discoveryResults err reads)
  then show ?case by (auto split: if_splits)
next
  case (3 NewMapXml requestID discoveryResults buffer reads)
  then show ?case
    by (cases "readDiscoveryResponse NewMapXml requestID buffer") (auto split: if_splits)
qed

lemma readLoop_until_timeout:
  assumes "readLoop NewMapXml requestID acc (map Received bufs @ [Failed (NetError msg True)])
             = Some (ds, None)"
  shows "readLoop NewMapXml requestID acc (map Received bufs @ reads)
           = readLoop NewMapXml requestID ds reads"
  using assms
proof (induction bufs arbitrary: acc)
  case Nil
  then show ?case by simp
next
  case (Cons b bufs)
  then show ?case
    by (cases "readDiscoveryResponse NewMapXml requestID b") (auto split: if_splits)
qed

lemma readLoop_accepted:
  assumes "\<forall>b \<in> set bufs. snd (readDiscoveryResponse NewMapXml requestID b) = None"
  shows "readLoop NewMapXml requestID acc (map Received bufs @ reads) =
         readLoop NewMapXml requestID
           (acc @ map (\<lambda>b. fst (readDiscoveryResponse NewMapXml requestID b)) bufs) reads"
  using assms
proof (induction bufs arbitrary: acc)
  case Nil
  then show ?case by simp
next
  case (Cons b bufs)
  then show ?case
    by (cases "readDiscoveryResponse NewMapXml requestID b") simp
qed

lemma StartDiscovery_open:
  "setupSucceeds net \<Longrightarrow>
     StartDiscovery NewMapXml net =
       readLoop NewMapXml (''uuid:'' @ uuidNewV4 net) [] (readFromUDP net)"
  by (simp add: StartDiscovery_def setupSucceeds_def)

lemma setupSucceeds_openNetwork: "setupSucceeds (openNetwork uuid reads)"
  by (simp add: setupSucceeds_def openNetwork_def)

section \<open>Facts about readDiscoveryResponse\<close>

lemma readDiscoveryResponse_correlated:
  assumes "NewMapXml buffer = Inr mapXML"
    and "ValueForPathString mapXML ''Envelope.Header.RelatesTo'' = messageID"
  shows "readDiscoveryResponse NewMapXml messageID buffer =
      (\<lparr>ID = Replace (ValueForPathString mapXML
               ''Envelope.Body.ProbeMatches.ProbeMatch.EndpointReference.Address'')
               ''urn:uuid'' [] 1,
        Name = deviceNameLoop (Split (ValueForPathString mapXML
               ''Envelope.Body.ProbeMatches.ProbeMatch.Scopes'') '' ''),
        XAddr = Split (ValueForPathString mapXML
               ''Envelope.Body.ProbeMatches.ProbeMatch.XAddrs'') '' '' ! 0\<rparr>, None)"
  using assms by (simp add: readDiscoveryResponse_def Let_def Split_not_Nil)

lemma readDiscoveryResponse_uncorrelated:
  assumes "NewMapXml buffer = Inr mapXML"
    and "ValueForPathString mapXML ''Envelope.Header.RelatesTo'' \<noteq> messageID"
  shows "readDiscoveryResponse NewMapXml messageID buffer =
      (\<lparr>ID = [], Name = [], XAddr = []\<rparr>, Some errWrongDiscoveryResponse)"
  using assms by (simp add: readDiscoveryResponse_def Let_def)

lemma readDiscoveryResponse_unparsed:
  assumes "NewMapXml buffer = Inl msg"
  shows "readDiscoveryResponse NewMapXml messageID buffer =
      (\<lparr>ID = [], Name = [], XAddr = []\<rparr>, Some (XmlError msg))"
  using assms by (simp add: readDiscoveryResponse_def)

text \<open>
  \<open>strings.Split\<close> with a non-empty separator returns at least one piece, so the test
  \<open>len(listXAddr) == 0\<close> of line 143 never holds and its error is never returned.
\<close>

lemma errNoXAddr_never_returned:
  "snd (readDiscoveryResponse NewMapXml messageID buffer) \<noteq> Some errNoXAddr"
  by (simp add: readDiscoveryResponse_def Let_def Split_not_Nil split: sum.splits)

text \<open>
  After an uncorrelated reply the loop does not return, and goes on to line 102 with the
  \<open>Device{}\<close> the parser returned with its error.
\<close>

lemma readLoop_uncorrelated:
  assumes "NewMapXml buffer = Inr mapXML"
    and "ValueForPathString mapXML ''Envelope.Header.RelatesTo'' \<noteq> requestID"
  shows "readLoop NewMapXml requestID discoveryResults (Received buffer # reads) =
         readLoop NewMapXml requestID
           (discoveryResults @ [\<lparr>ID = [], Name = [], XAddr = []\<rparr>]) reads"
  using assms by (simp add: readDiscoveryResponse_uncorrelated)

lemma specFirstToken_space:
  assumes "\<forall>c \<in> set s. isSpace c \<longrightarrow> c = CHR '' ''" and "\<not> HasPrefix s '' ''"
  shows "specFirstToken s = takeWhile (\<lambda>c. c \<noteq> CHR '' '') s"
proof -
  have eq: "\<forall>c \<in> set s. (\<not> isSpace c) = (c \<noteq> CHR '' '')"
    using assms(1) by (auto simp: isSpace_def)
  have "dropWhile isSpace s = s"
  proof (cases s)
    case Nil
    then show ?thesis by simp
  next
    case (Cons c cs)
    with assms(2) have "c \<noteq> CHR '' ''" by (simp add: HasPrefix_single)
    with eq Cons show ?thesis by simp
  qed
  moreover have "takeWhile (\<lambda>c. \<not> isSpace c) s = takeWhile (\<lambda>c. c \<noteq> CHR '' '') s"
    using eq by (intro takeWhile_cong) simp_all
  ultimately show ?thesis by (simp add: specFirstToken_def)
qed

lemma accepted_device:
  assumes "NewMapXml buffer = Inr mapXML"
    and "readDiscoveryResponse NewMapXml messageID buffer = (device, None)"
  shows "ValueForPathString mapXML ''Envelope.Header.RelatesTo'' = messageID
     \<and> device =
      \<lparr>ID = Replace (ValueForPathString mapXML
               ''Envelope.Body.ProbeMatches.ProbeMatch.EndpointReference.Address'')
               ''urn:uuid'' [] 1,
        Name = deviceNameLoop (Split (ValueForPathString mapXML
               ''Envelope.Body.ProbeMatches.ProbeMatch.Scopes'') '' ''),
        XAddr = Split (ValueForPathString mapXML
               ''Envelope.Body.ProbeMatches.ProbeMatch.XAddrs'') '' '' ! 0\<rparr>"
proof (cases "ValueForPathString mapXML ''Envelope.Header.RelatesTo'' = messageID")
  case True
  with assms show ?thesis by (simp add: readDiscoveryResponse_correlated)
next
  case False
  with assms show ?thesis by (simp add: readDiscoveryResponse_uncorrelated)
qed

lemma readDiscoveryResponse_ID_value:
  "ID (fst (readDiscoveryResponse NewMapXml messageID buffer)) = []
   \<or> (\<exists>mapXML address. NewMapXml buffer = Inr mapXML
         \<and> ValueForPathString mapXML ''Envelope.Header.RelatesTo'' = messageID
         \<and> address = ValueForPathString mapXML
              ''Envelope.Body.ProbeMatches.ProbeMatch.EndpointReference.Address''
         \<and> ((\<not> Contains address ''urn:uuid''
               \<and> ID (fst (readDiscoveryResponse NewMapXml messageID buffer)) = address)
            \<or> (\<exists>before after. address = before @ ''urn:uuid'' @ after
                 \<and> \<not> Contains (before @ butlast ''urn:uuid'') ''urn:uuid''
                 \<and> ID (fst (readDiscoveryResponse NewMapXml messageID buffer))
                     = before @ after)))"
proof (cases "NewMapXml buffer")
  case (Inl msg)
  then show ?thesis by (simp add: readDiscoveryResponse_unparsed)
next
  case (Inr mapXML)
  show ?thesis
  proof (cases "ValueForPathString mapXML ''Envelope.Header.RelatesTo'' = messageID")
    case False
    with Inr show ?thesis by (simp add: readDiscoveryResponse_uncorrelated)
  next
    case True
    let ?address = "ValueForPathString mapXML
      ''Envelope.Body.ProbeMatches.ProbeMatch.EndpointReference.Address''"
    have "ID (fst (readDiscoveryResponse NewMapXml messageID buffer))
        = Replace ?address ''urn:uuid'' [] 1"
      using Inr True by (simp add: readDiscoveryResponse_correlated)
    moreover have "(\<not> Contains ?address ''urn:uuid'' \<and> Replace ?address ''urn:uuid'' [] 1 = ?address)
       \<or> (\<exists>before after. ?address = before @ ''urn:uuid'' @ after
             \<and> \<not> Contains (before @ butlast ''urn:uuid'') ''urn:uuid''
             \<and> Replace ?address ''urn:uuid'' [] 1 = before @ after)"
      by (rule Replace_once_cases) simp
    ultimately show ?thesis using Inr True by auto
  qed
qed

section \<open>The concrete replies, evaluated\<close>

lemma sample0: "sampleNewMapXml ''<Envelope'' = Inl ''xml: syntax error''"
  by (simp add: sampleNewMapXml_def tableNewMapXml_def)

lemma sample1: "sampleNewMapXml ''datagram 1'' = Inr frontDoor"
  by (simp add: sampleNewMapXml_def tableNewMapXml_def)

lemma sample2: "sampleNewMapXml ''datagram 2'' = Inr backYard"
  by (simp add: sampleNewMapXml_def tableNewMapXml_def)

lemma sample3: "sampleNewMapXml ''datagram 3'' = Inr stranger"
  by (simp add: sampleNewMapXml_def tableNewMapXml_def)

lemma sample4: "sampleNewMapXml ''datagram 4'' = Inr noAddress"
  by (simp add: sampleNewMapXml_def tableNewMapXml_def)

lemma sample5: "sampleNewMapXml ''datagram 5'' = Inr nestedUrn"
  by (simp add: sampleNewMapXml_def tableNewMapXml_def)

lemma sample6: "sampleNewMapXml ''datagram 6'' = Inr newlineList"
  by (simp add: sampleNewMapXml_def tableNewMapXml_def)

lemma sample7: "sampleNewMapXml ''datagram 7'' = Inr sideGate"
  by (simp add: sampleNewMapXml_def tableNewMapXml_def)

lemma frontDoor_device:
  "readDiscoveryResponse sampleNewMapXml ''uuid:7f3a'' ''datagram 1'' =
     (\<lparr>ID = '':4d454930-c4d6'', Name = ''Front Door'',
       XAddr = ''http://192.168.1.10/onvif/device_service''\<rparr>, None)"
  by (simp add: readDiscoveryResponse_def Let_def sample1 frontDoor_def probeMatch_def
      ValueForPathString_def Split_def HasPrefix_def)

lemma backYard_device:
  "readDiscoveryResponse sampleNewMapXml ''uuid:7f3a'' ''datagram 2'' =
     (\<lparr>ID = '':5e565a41-d5e7'', Name = ''Back Yard'',
       XAddr = ''http://192.168.1.11/onvif/device_service''\<rparr>, None)"
  by (simp add: readDiscoveryResponse_def Let_def sample2 backYard_def probeMatch_def
      ValueForPathString_def Split_def HasPrefix_def)

lemma stranger_device:
  "readDiscoveryResponse sampleNewMapXml ''uuid:7f3a'' ''datagram 3'' =
     (\<lparr>ID = [], Name = [], XAddr = []\<rparr>, Some errWrongDiscoveryResponse)"
  by (simp add: readDiscoveryResponse_def Let_def sample3 stranger_def probeMatch_def
      ValueForPathString_def)

lemma noAddress_device:
  "readDiscoveryResponse sampleNewMapXml ''uuid:7f3a'' ''datagram 4'' =
     (\<lparr>ID = '':70787c63-f709'', Name = ''Garage'', XAddr = []\<rparr>, None)"
  by (simp add: readDiscoveryResponse_def Let_def sample4 noAddress_def probeMatch_def
      ValueForPathString_def Split_def HasPrefix_def)

lemma nestedUrn_device:
  "readDiscoveryResponse sampleNewMapXml ''uuid:7f3a'' ''datagram 5'' =
     (\<lparr>ID = '':urn:uuid:81898d74'', Name = [],
       XAddr = ''http://192.168.1.13/onvif/device_service''\<rparr>, None)"
  by (simp add: readDiscoveryResponse_def Let_def sample5 nestedUrn_def probeMatch_def
      ValueForPathString_def Split_def HasPrefix_def)

lemma newlineList_device:
  "readDiscoveryResponse sampleNewMapXml ''uuid:7f3a'' ''datagram 6'' =
     (\<lparr>ID = '':929a9e85-192b'', Name = [],
       XAddr = ''http://192.168.1.14/onvif/device_service'' @ [CHR 0x0A]
                 @ ''http://192.168.1.14:8080/onvif''\<rparr>, None)"
  by (simp add: readDiscoveryResponse_def Let_def sample6 newlineList_def probeMatch_def
      ValueForPathString_def Split_def HasPrefix_def)

lemma sideGate_device:
  "readDiscoveryResponse sampleNewMapXml ''uuid:7f3a'' ''datagram 7'' =
     (\<lparr>ID = ''x:a3abaf96'', Name = ''Side Gate 2'',
       XAddr = ''http://192.168.1.15/onvif/device_service''\<rparr>, None)"
  by (simp add: readDiscoveryResponse_def Let_def sample7 sideGate_def probeMatch_def
      ValueForPathString_def Split_def HasPrefix_def)

section \<open>The claims\<close>

subsection \<open>Uncorrelated replies\<close>

text \<open>
  C1. A reply whose \<open>RelatesTo\<close> differs from the identifier of the session should add no
  device. The code does not return on \<open>errWrongDiscoveryResponse\<close> and then falls
  through to the \<open>append\<close> of line 102: a session that receives one reply to another
  probe, \<open>uuid:0b1e\<close>, and then times out returns a list of one device, the empty
  \<open>Device{}\<close>, and no error.
\<close>

theorem uncorrelated_reply_appends_zero_device:
  "ValueForPathString stranger ''Envelope.Header.RelatesTo'' \<noteq> ''uuid:'' @ ''7f3a''
   \<and> StartDiscovery sampleNewMapXml
        (openNetwork ''7f3a'' [Received ''datagram 3'', Failed (NetError ''i/o timeout'' True)])
      = Some ([\<lparr>ID = [], Name = [], XAddr = []\<rparr>], None)"
proof -
  have "ValueForPathString stranger ''Envelope.Header.RelatesTo'' \<noteq> ''uuid:7f3a''"
    by (simp add: stranger_def probeMatch_def ValueForPathString_def)
  moreover have "readLoop sampleNewMapXml ''uuid:7f3a'' []
      [Received ''datagram 3'', Failed (NetError ''i/o timeout'' True)]
      = Some ([\<lparr>ID = [], Name = [], XAddr = []\<rparr>], None)"
    by (simp add: stranger_device)
  ultimately show ?thesis
    by (simp add: StartDiscovery_def openNetwork_def)
qed

subsection \<open>Empty address lists\<close>

text \<open>
  C2. A correlated reply with an empty \<open>XAddrs\<close> should give the error of line 144. The
  code splits the empty string into the one piece \<open>""\<close>, so the list is never empty:
  the reply is accepted, with the empty string as its \<open>XAddr\<close> and no error.
\<close>

theorem empty_address_list_is_accepted:
  "ValueForPathString noAddress ''Envelope.Body.ProbeMatches.ProbeMatch.XAddrs'' = []
   \<and> sampleNewMapXml ''datagram 4'' = Inr noAddress
   \<and> readDiscoveryResponse sampleNewMapXml ''uuid:7f3a'' ''datagram 4''
      = (\<lparr>ID = '':70787c63-f709'', Name = ''Garage'', XAddr = []\<rparr>, None)"
proof -
  have "ValueForPathString noAddress ''Envelope.Body.ProbeMatches.ProbeMatch.XAddrs'' = []"
    by (simp add: noAddress_def probeMatch_def ValueForPathString_def)
  then show ?thesis
    using sample4 noAddress_device by simp
qed

subsection \<open>Accepted replies\<close>

text \<open>
  C3. When set-up succeeds and the reads deliver N datagrams, each parseable, each
  carrying the identifier of the session and a non-empty address list, before the first
  failing read, the call returns exactly N devices: the device of each reply, in the
  order of arrival (and no error when that failing read is the timeout).
\<close>

theorem accepted_replies_in_arrival_order:
  assumes "setupSucceeds net"
    and "readFromUDP net = map Received bufs @ Failed err # reads"
    and "\<forall>b \<in> set bufs. \<exists>mapXML. NewMapXml b = Inr mapXML
           \<and> ValueForPathString mapXML ''Envelope.Header.RelatesTo'' = ''uuid:'' @ uuidNewV4 net
           \<and> ValueForPathString mapXML ''Envelope.Body.ProbeMatches.ProbeMatch.XAddrs'' \<noteq> []"
  shows "\<exists>devices. StartDiscovery NewMapXml net
             = Some (devices, if isTimeout err then None else Some err)
      \<and> length devices = length bufs
      \<and> devices
          = map (\<lambda>b. fst (readDiscoveryResponse NewMapXml (''uuid:'' @ uuidNewV4 net) b)) bufs"
proof -
  let ?rid = "''uuid:'' @ uuidNewV4 net"
  have "\<forall>b \<in> set bufs. snd (readDiscoveryResponse NewMapXml ?rid b) = None"
    using assms(3) readDiscoveryResponse_correlated [of NewMapXml _ _ ?rid] by fastforce
  then have "readLoop NewMapXml ?rid [] (map Received bufs @ Failed err # reads) =
      readLoop NewMapXml ?rid
        ([] @ map (\<lambda>b. fst (readDiscoveryResponse NewMapXml ?rid b)) bufs) (Failed err # reads)"
    by (rule readLoop_accepted)
  then show ?thesis
    using assms(1,2) by (simp add: StartDiscovery_open)
qed

theorem accepted_replies_in_arrival_order_witness:
  "StartDiscovery sampleNewMapXml
     (openNetwork ''7f3a''
        [Received ''datagram 1'', Received ''datagram 2'', Failed (NetError ''i/o timeout'' True)])
   = Some ([\<lparr>ID = '':4d454930-c4d6'', Name = ''Front Door'',
              XAddr = ''http://192.168.1.10/onvif/device_service''\<rparr>,
            \<lparr>ID = '':5e565a41-d5e7'', Name = ''Back Yard'',
              XAddr = ''http://192.168.1.11/onvif/device_service''\<rparr>], None)"
proof -
  let ?net = "openNetwork ''7f3a''
    [Received ''datagram 1'', Received ''datagram 2'', Failed (NetError ''i/o timeout'' True)]"
  have 1: "setupSucceeds ?net"
    by (rule setupSucceeds_openNetwork)
  have 2: "readFromUDP ?net = map Received [''datagram 1'', ''datagram 2'']
      @ Failed (NetError ''i/o timeout'' True) # []"
    by (simp add: openNetwork_def)
  have 3: "\<forall>b \<in> set [''datagram 1'', ''datagram 2'']. \<exists>mapXML. sampleNewMapXml b = Inr mapXML
      \<and> ValueForPathString mapXML ''Envelope.Header.RelatesTo'' = ''uuid:'' @ uuidNewV4 ?net
      \<and> ValueForPathString mapXML ''Envelope.Body.ProbeMatches.ProbeMatch.XAddrs'' \<noteq> []"
    by (simp add: sample1 sample2 openNetwork_def frontDoor_def backYard_def probeMatch_def
        ValueForPathString_def)
  have rid: "''uuid:'' @ uuidNewV4 ?net = ''uuid:7f3a''"
    by (simp add: openNetwork_def)
  from accepted_replies_in_arrival_order [OF 1 2 3]
  show ?thesis
    unfolding rid by (simp add: frontDoor_device backYard_device)
qed

subsection \<open>The fields of a device\<close>

text \<open>
  C4, as amended. Every device of the returned list has an \<open>ID\<close> that is empty or is
  the endpoint address of a parseable, correlated reply of the session with its
  leftmost \<open>urn:uuid\<close> cut out (the address as it is when it has none). So no device of
  the list has an \<open>ID\<close> that contains \<open>urn:uuid\<close>, provided that no such address
  still contains \<open>urn:uuid\<close> once its leftmost one is cut out.
\<close>

theorem device_ID_first_urn_removed:
  assumes "StartDiscovery NewMapXml net = Some (devices, err)"
    and "device \<in> set devices"
  shows "(ID device = []
      \<or> (\<exists>b mapXML address. Received b \<in> set (readFromUDP net) \<and> NewMapXml b = Inr mapXML
           \<and> ValueForPathString mapXML ''Envelope.Header.RelatesTo'' = ''uuid:'' @ uuidNewV4 net
           \<and> address = ValueForPathString mapXML
                ''Envelope.Body.ProbeMatches.ProbeMatch.EndpointReference.Address''
           \<and> ((\<not> Contains address ''urn:uuid'' \<and> ID device = address)
              \<or> (\<exists>before after. address = before @ ''urn:uuid'' @ after
                   \<and> \<not> Contains (before @ butlast ''urn:uuid'') ''urn:uuid''
                   \<and> ID device = before @ after))))
    \<and> ((\<forall>b mapXML before after.
           Received b \<in> set (readFromUDP net) \<and> NewMapXml b = Inr mapXML
           \<and> ValueForPathString mapXML ''Envelope.Header.RelatesTo'' = ''uuid:'' @ uuidNewV4 net
           \<and> ValueForPathString mapXML
                ''Envelope.Body.ProbeMatches.ProbeMatch.EndpointReference.Address''
              = before @ ''urn:uuid'' @ after
           \<and> \<not> Contains (before @ butlast ''urn:uuid'') ''urn:uuid''
           \<longrightarrow> \<not> Contains (before @ after) ''urn:uuid'')
        \<longrightarrow> \<not> Contains (ID device) ''urn:uuid'')"
proof -
  let ?rid = "''uuid:'' @ uuidNewV4 net"
  let ?path = "''Envelope.Body.ProbeMatches.ProbeMatch.EndpointReference.Address''"
  let ?Q = "\<lambda>d. ID d = []
      \<or> (\<exists>b mapXML address. Received b \<in> set (readFromUDP net) \<and> NewMapXml b = Inr mapXML
           \<and> ValueForPathString mapXML ''Envelope.Header.RelatesTo'' = ?rid
           \<and> address = ValueForPathString mapXML ?path
           \<and> ((\<not> Contains address ''urn:uuid'' \<and> ID d = address)
              \<or> (\<exists>before after. address = before @ ''urn:uuid'' @ after
                   \<and> \<not> Contains (before @ butlast ''urn:uuid'') ''urn:uuid''
                   \<and> ID d = before @ after)))"
  have shape: "?Q device"
  proof (cases "setupSucceeds net")
    case True
    then have loop: "readLoop NewMapXml ?rid [] (readFromUDP net) = Some (devices, err)"
      using assms(1) by (simp add: StartDiscovery_open)
    have each: "\<forall>b. Received b \<in> set (readFromUDP net)
        \<longrightarrow> ?Q (fst (readDiscoveryResponse NewMapXml ?rid b))"
    proof (intro allI impI)
      fix b
      assume "Received b \<in> set (readFromUDP net)"
      with readDiscoveryResponse_ID_value [of NewMapXml ?rid b]
      show "?Q (fst (readDiscoveryResponse NewMapXml ?rid b))"
        by blast
    qed
    have "\<forall>d \<in> set []. ?Q d" by simp
    with loop have "\<forall>d \<in> set devices. ?Q d"
      using each by (rule readLoop_invariant)
    with assms(2) show ?thesis by blast
  next
    case False
    then have "devices = []"
      using assms(1) by (auto simp: StartDiscovery_def setupSucceeds_def split: option.splits)
    with assms(2) show ?thesis by simp
  qed
  have "\<not> Contains (ID device) ''urn:uuid''"
    if clean: "\<forall>b mapXML before after.
           Received b \<in> set (readFromUDP net) \<and> NewMapXml b = Inr mapXML
           \<and> ValueForPathString mapXML ''Envelope.Header.RelatesTo'' = ?rid
           \<and> ValueForPathString mapXML ?path = before @ ''urn:uuid'' @ after
           \<and> \<not> Contains (before @ butlast ''urn:uuid'') ''urn:uuid''
           \<longrightarrow> \<not> Contains (before @ after) ''urn:uuid''"
  proof -
    from shape consider "ID device = []"
      | b mapXML where "Received b \<in> set (readFromUDP net)" "NewMapXml b = Inr mapXML"
          "ValueForPathString mapXML ''Envelope.Header.RelatesTo'' = ?rid"
          "\<not> Contains (ValueForPathString mapXML ?path) ''urn:uuid''"
          "ID device = ValueForPathString mapXML ?path"
      | b mapXML before after where "Received b \<in> set (readFromUDP net)"
          "NewMapXml b = Inr mapXML"
          "ValueForPathString mapXML ''Envelope.Header.RelatesTo'' = ?rid"
          "ValueForPathString mapXML ?path = before @ ''urn:uuid'' @ after"
          "\<not> Contains (before @ butlast ''urn:uuid'') ''urn:uuid''"
          "ID device = before @ after"
      by blast
    then show ?thesis
    proof cases
      case 1
      then show ?thesis by simp
    next
      case 2
      then show ?thesis by simp
    next
      case 3
      with clean have "\<not> Contains (before @ after) ''urn:uuid''" by blast
      with 3 show ?thesis by simp
    qed
  qed
  with shape show ?thesis by blast
qed

theorem device_ID_first_urn_removed_witness:
  "StartDiscovery sampleNewMapXml
     (openNetwork ''7f3a''
        [Received ''datagram 7'', Received ''datagram 1'', Failed (NetError ''i/o timeout'' True)])
   = Some ([\<lparr>ID = ''x:a3abaf96'', Name = ''Side Gate 2'',
              XAddr = ''http://192.168.1.15/onvif/device_service''\<rparr>,
            \<lparr>ID = '':4d454930-c4d6'', Name = ''Front Door'',
              XAddr = ''http://192.168.1.10/onvif/device_service''\<rparr>], None)
   \<and> \<not> Contains ''x:a3abaf96'' ''urn:uuid''
   \<and> \<not> Contains '':4d454930-c4d6'' ''urn:uuid''"
proof -
  let ?net = "openNetwork ''7f3a''
    [Received ''datagram 7'', Received ''datagram 1'', Failed (NetError ''i/o timeout'' True)]"
  let ?dev7 = "\<lparr>ID = ''x:a3abaf96'', Name = ''Side Gate 2'',
    XAddr = ''http://192.168.1.15/onvif/device_service''\<rparr>"
  let ?dev1 = "\<lparr>ID = '':4d454930-c4d6'', Name = ''Front Door'',
    XAddr = ''http://192.168.1.10/onvif/device_service''\<rparr>"
  let ?path = "''Envelope.Body.ProbeMatches.ProbeMatch.EndpointReference.Address''"
  have run: "StartDiscovery sampleNewMapXml ?net = Some ([?dev7, ?dev1], None)"
    by (simp add: StartDiscovery_def openNetwork_def sideGate_device frontDoor_device)
  have clean: "\<forall>b mapXML before after.
      Received b \<in> set (readFromUDP ?net) \<and> sampleNewMapXml b = Inr mapXML
      \<and> ValueForPathString mapXML ''Envelope.Header.RelatesTo'' = ''uuid:'' @ uuidNewV4 ?net
      \<and> ValueForPathString mapXML ?path = before @ ''urn:uuid'' @ after
      \<and> \<not> Contains (before @ butlast ''urn:uuid'') ''urn:uuid''
      \<longrightarrow> \<not> Contains (before @ after) ''urn:uuid''"
  proof (intro allI impI, elim conjE)
    fix b mapXML before after
    assume r: "Received b \<in> set (readFromUDP ?net)"
      and p: "sampleNewMapXml b = Inr mapXML"
      and eq: "ValueForPathString mapXML ?path = before @ ''urn:uuid'' @ after"
      and left: "\<not> Contains (before @ butlast ''urn:uuid'') ''urn:uuid''"
    have "Replace (before @ ''urn:uuid'' @ after) ''urn:uuid'' [] 1 = before @ [] @ after"
      using left by (intro Replace_leftmost) simp_all
    with eq have cut: "before @ after = Replace (ValueForPathString mapXML ?path) ''urn:uuid'' [] 1"
      by simp
    from r have "b = ''datagram 7'' \<or> b = ''datagram 1''"
      by (simp add: openNetwork_def)
    then show "\<not> Contains (before @ after) ''urn:uuid''"
    proof
      assume "b = ''datagram 7''"
      with p have "mapXML = sideGate" by (simp add: sample7)
      then have "ValueForPathString mapXML ?path = ''xurn:uuid:a3abaf96''"
        by (simp add: sideGate_def probeMatch_def ValueForPathString_def)
      with cut have "before @ after = ''x:a3abaf96''"
        by (simp add: HasPrefix_def)
      then show ?thesis by (simp add: HasPrefix_def)
    next
      assume "b = ''datagram 1''"
      with p have "mapXML = frontDoor" by (simp add: sample1)
      then have "ValueForPathString mapXML ?path = ''urn:uuid:4d454930-c4d6''"
        by (simp add: frontDoor_def probeMatch_def ValueForPathString_def)
      with cut have "before @ after = '':4d454930-c4d6''"
        by (simp add: HasPrefix_def)
      then show ?thesis by (simp add: HasPrefix_def)
    qed
  qed
  have "\<not> Contains (ID ?dev7) ''urn:uuid''"
    using device_ID_first_urn_removed [OF run, of ?dev7] clean by simp
  moreover have "\<not> Contains (ID ?dev1) ''urn:uuid''"
    using device_ID_first_urn_removed [OF run, of ?dev1] clean by simp
  ultimately show ?thesis using run by simp
qed

text \<open>
  As the specification words it, for every device of the result, the claim fails: only
  the first \<open>urn:uuid\<close> is removed, and the address \<open>urn:uuid:urn:uuid:81898d74\<close> leaves an
  \<open>ID\<close> that still contains one.
\<close>

theorem device_ID_counterexample:
  "StartDiscovery sampleNewMapXml
     (openNetwork ''7f3a'' [Received ''datagram 5'', Failed (NetError ''i/o timeout'' True)])
   = Some ([\<lparr>ID = '':urn:uuid:81898d74'', Name = [],
              XAddr = ''http://192.168.1.13/onvif/device_service''\<rparr>], None)
   \<and> Contains '':urn:uuid:81898d74'' ''urn:uuid''"
  by (simp add: StartDiscovery_def openNetwork_def nestedUrn_device HasPrefix_def)

text \<open>
  C5, as amended. For every accepted reply, with its scopes the pieces of the scope
  list between single spaces: when the first scope that begins with
  \<open>onvif://www.onvif.org/name/\<close> is that prefix followed by \<open>Front_Door\<close>, the name of the
  device is \<open>Front Door\<close> (whatever follows the prefix, the name is that text with
  every underscore replaced by a space); when no scope begins with the prefix, the name
  is empty. That is not an error: the scope list plays no part in acceptance, and the
  reply stays accepted whatever scope list is put in place of its own.
\<close>

theorem name_of_accepted_reply:
  assumes "NewMapXml buffer = Inr mapXML"
    and "readDiscoveryResponse NewMapXml messageID buffer = (device, None)"
    and "scopes = Split (ValueForPathString mapXML
           ''Envelope.Body.ProbeMatches.ProbeMatch.Scopes'') '' ''"
  shows "(\<forall>rest. find (\<lambda>scope. HasPrefix scope ''onvif://www.onvif.org/name/'') scopes
            = Some (''onvif://www.onvif.org/name/'' @ rest)
          \<longrightarrow> Name device = map (\<lambda>c. if c = CHR ''_'' then CHR '' '' else c) rest)
     \<and> (find (\<lambda>scope. HasPrefix scope ''onvif://www.onvif.org/name/'') scopes
            = Some ''onvif://www.onvif.org/name/Front_Door''
          \<longrightarrow> Name device = ''Front Door'')
     \<and> (find (\<lambda>scope. HasPrefix scope ''onvif://www.onvif.org/name/'') scopes = None
          \<longrightarrow> Name device = [])
     \<and> (\<forall>other. snd (readDiscoveryResponse
            (NewMapXml(buffer := Inr (mapXML(''Envelope.Body.ProbeMatches.ProbeMatch.Scopes''
               \<mapsto> other))))
            messageID buffer) = None)"
proof -
  let ?pre = "''onvif://www.onvif.org/name/''"
  from accepted_device [OF assms(1,2)]
  have corr: "ValueForPathString mapXML ''Envelope.Header.RelatesTo'' = messageID"
    and name: "Name device = deviceNameLoop scopes"
    using assms(3) by simp_all
  have general: "Name device = map (\<lambda>c. if c = CHR ''_'' then CHR '' '' else c) rest"
    if "find (\<lambda>scope. HasPrefix scope ?pre) scopes = Some (?pre @ rest)" for rest
  proof -
    have "Replace (?pre @ rest) ?pre [] 1 = [] @ rest"
      by (rule Replace_prefix_once) simp
    then have "Replace (Replace (?pre @ rest) ?pre [] 1) ''_'' '' '' (- 1)
        = map (\<lambda>c. if c = CHR ''_'' then CHR '' '' else c) rest"
      by (simp only: append_Nil Replace_char_all [of "- 1", simplified])
    with that name show ?thesis
      by (simp only: deviceNameLoop_find option.case)
  qed
  have front: "Name device = ''Front Door''"
    if "find (\<lambda>scope. HasPrefix scope ?pre) scopes = Some ''onvif://www.onvif.org/name/Front_Door''"
  proof -
    from that have "find (\<lambda>scope. HasPrefix scope ?pre) scopes = Some (?pre @ ''Front_Door'')"
      by simp
    from general [OF this] show ?thesis by simp
  qed
  have none: "Name device = []"
    if "find (\<lambda>scope. HasPrefix scope ?pre) scopes = None"
    using that name by (simp add: deviceNameLoop_find)
  have other: "snd (readDiscoveryResponse
      (NewMapXml(buffer := Inr (mapXML(''Envelope.Body.ProbeMatches.ProbeMatch.Scopes''
         \<mapsto> other)))) messageID buffer) = None" for other
  proof -
    let ?m = "mapXML(''Envelope.Body.ProbeMatches.ProbeMatch.Scopes'' \<mapsto> other)"
    have "(NewMapXml(buffer := Inr ?m)) buffer = Inr ?m" by simp
    moreover have "ValueForPathString ?m ''Envelope.Header.RelatesTo'' = messageID"
      using corr by (simp add: ValueForPathString_def)
    ultimately show ?thesis
      using readDiscoveryResponse_correlated [of "NewMapXml(buffer := Inr ?m)" buffer ?m messageID]
      by simp
  qed
  from general front none other show ?thesis by blast
qed

theorem name_of_accepted_reply_witness:
  "Name (fst (readDiscoveryResponse sampleNewMapXml ''uuid:7f3a'' ''datagram 7''))
     = ''Side Gate 2''
   \<and> find (\<lambda>scope. HasPrefix scope ''onvif://www.onvif.org/name/'')
       (Split (ValueForPathString sideGate
          ''Envelope.Body.ProbeMatches.ProbeMatch.Scopes'') '' '')
     = Some (''onvif://www.onvif.org/name/'' @ ''Side_Gate_2'')
   \<and> Name (fst (readDiscoveryResponse sampleNewMapXml ''uuid:7f3a'' ''datagram 1''))
     = ''Front Door''
   \<and> find (\<lambda>scope. HasPrefix scope ''onvif://www.onvif.org/name/'')
       (Split (ValueForPathString frontDoor
          ''Envelope.Body.ProbeMatches.ProbeMatch.Scopes'') '' '')
     = Some ''onvif://www.onvif.org/name/Front_Door''
   \<and> Name (fst (readDiscoveryResponse sampleNewMapXml ''uuid:7f3a'' ''datagram 5'')) = []
   \<and> find (\<lambda>scope. HasPrefix scope ''onvif://www.onvif.org/name/'')
       (Split (ValueForPathString nestedUrn
          ''Envelope.Body.ProbeMatches.ProbeMatch.Scopes'') '' '')
     = None
   \<and> snd (readDiscoveryResponse
       (sampleNewMapXml(''datagram 1'' :=
          Inr (frontDoor(''Envelope.Body.ProbeMatches.ProbeMatch.Scopes'' \<mapsto> []))))
       ''uuid:7f3a'' ''datagram 1'') = None"
proof -
  let ?isName = "\<lambda>scope. HasPrefix scope ''onvif://www.onvif.org/name/''"
  let ?path = "''Envelope.Body.ProbeMatches.ProbeMatch.Scopes''"
  let ?dev7 = "fst (readDiscoveryResponse sampleNewMapXml ''uuid:7f3a'' ''datagram 7'')"
  let ?dev1 = "fst (readDiscoveryResponse sampleNewMapXml ''uuid:7f3a'' ''datagram 1'')"
  let ?dev5 = "fst (readDiscoveryResponse sampleNewMapXml ''uuid:7f3a'' ''datagram 5'')"
  have a7: "readDiscoveryResponse sampleNewMapXml ''uuid:7f3a'' ''datagram 7'' = (?dev7, None)"
    by (simp add: sideGate_device)
  have a1: "readDiscoveryResponse sampleNewMapXml ''uuid:7f3a'' ''datagram 1'' = (?dev1, None)"
    by (simp add: frontDoor_device)
  have a5: "readDiscoveryResponse sampleNewMapXml ''uuid:7f3a'' ''datagram 5'' = (?dev5, None)"
    by (simp add: nestedUrn_device)
  have f7: "find ?isName (Split (ValueForPathString sideGate ?path) '' '')
      = Some (''onvif://www.onvif.org/name/'' @ ''Side_Gate_2'')"
    by (simp add: sideGate_def probeMatch_def ValueForPathString_def Split_def HasPrefix_def)
  have f1: "find ?isName (Split (ValueForPathString frontDoor ?path) '' '')
      = Some ''onvif://www.onvif.org/name/Front_Door''"
    by (simp add: frontDoor_def probeMatch_def ValueForPathString_def Split_def HasPrefix_def)
  have f5: "find ?isName (Split (ValueForPathString nestedUrn ?path) '' '') = None"
    by (simp add: nestedUrn_def probeMatch_def ValueForPathString_def Split_def HasPrefix_def)
  from name_of_accepted_reply
    [of sampleNewMapXml "''datagram 7''" sideGate "''uuid:7f3a''" ?dev7, OF sample7 a7 refl] f7
  have "Name ?dev7 = map (\<lambda>c. if c = CHR ''_'' then CHR '' '' else c) ''Side_Gate_2''"
    by blast
  then have n7: "Name ?dev7 = ''Side Gate 2''" by simp
  from name_of_accepted_reply
    [of sampleNewMapXml "''datagram 1''" frontDoor "''uuid:7f3a''" ?dev1, OF sample1 a1 refl] f1
  have n1: "Name ?dev1 = ''Front Door''"
    and o1: "snd (readDiscoveryResponse
       (sampleNewMapXml(''datagram 1'' := Inr (frontDoor(?path \<mapsto> []))))
       ''uuid:7f3a'' ''datagram 1'') = None"
    by blast+
  from name_of_accepted_reply
    [of sampleNewMapXml "''datagram 5''" nestedUrn "''uuid:7f3a''" ?dev5, OF sample5 a5 refl] f5
  have n5: "Name ?dev5 = []" by blast
  from n7 f7 n1 f1 n5 f5 o1 show ?thesis by blast
qed

text \<open>
  As the specification words it, for any scope list that contains the token, the claim
  fails: the loop stops at the first name scope, and a list with \<open>Back_Yard\<close> before
  \<open>Front_Door\<close> gives the name \<open>Back Yard\<close>.
\<close>

theorem name_scope_counterexample:
  "''onvif://www.onvif.org/name/Front_Door''
     \<in> set (Split (ValueForPathString backYard
           ''Envelope.Body.ProbeMatches.ProbeMatch.Scopes'') '' '')
   \<and> sampleNewMapXml ''datagram 2'' = Inr backYard
   \<and> readDiscoveryResponse sampleNewMapXml ''uuid:7f3a'' ''datagram 2''
      = (\<lparr>ID = '':5e565a41-d5e7'', Name = ''Back Yard'',
          XAddr = ''http://192.168.1.11/onvif/device_service''\<rparr>, None)
   \<and> ''Back Yard'' \<noteq> ''Front Door''"
proof -
  have "''onvif://www.onvif.org/name/Front_Door''
     \<in> set (Split (ValueForPathString backYard
           ''Envelope.Body.ProbeMatches.ProbeMatch.Scopes'') '' '')"
    by (simp add: backYard_def probeMatch_def ValueForPathString_def Split_def HasPrefix_def)
  then show ?thesis
    using sample2 backYard_device by simp
qed

text \<open>
  C6, as amended. For every accepted device, its \<open>XAddr\<close> is the text of the reply's
  \<open>XAddrs\<close> before the first space character (the whole of \<open>XAddrs\<close> when it contains
  no space). That is the first whitespace-separated token of \<open>XAddrs\<close> whenever the
  space is the only whitespace in \<open>XAddrs\<close> and \<open>XAddrs\<close> does not begin with one.
\<close>

theorem XAddr_of_accepted_reply:
  assumes "NewMapXml buffer = Inr mapXML"
    and "readDiscoveryResponse NewMapXml messageID buffer = (device, None)"
    and "xAddrs = ValueForPathString mapXML ''Envelope.Body.ProbeMatches.ProbeMatch.XAddrs''"
  shows "XAddr device = takeWhile (\<lambda>c. c \<noteq> CHR '' '') xAddrs
     \<and> ((\<forall>c \<in> set xAddrs. isSpace c \<longrightarrow> c = CHR '' '') \<and> \<not> HasPrefix xAddrs '' ''
          \<longrightarrow> XAddr device = specFirstToken xAddrs)"
proof -
  from accepted_device [OF assms(1,2)]
  have "XAddr device = Split xAddrs '' '' ! 0"
    using assms(3) by simp
  then show ?thesis
    by (simp add: Split_space_first specFirstToken_space)
qed

theorem XAddr_of_accepted_reply_witness:
  "XAddr (fst (readDiscoveryResponse sampleNewMapXml ''uuid:7f3a'' ''datagram 1''))
     = ''http://192.168.1.10/onvif/device_service''
   \<and> specFirstToken
       ''http://192.168.1.10/onvif/device_service http://192.168.1.10:8080/onvif''
     = ''http://192.168.1.10/onvif/device_service''"
proof -
  let ?xAddrs = "''http://192.168.1.10/onvif/device_service http://192.168.1.10:8080/onvif''"
  let ?dev1 = "fst (readDiscoveryResponse sampleNewMapXml ''uuid:7f3a'' ''datagram 1'')"
  have a1: "readDiscoveryResponse sampleNewMapXml ''uuid:7f3a'' ''datagram 1'' = (?dev1, None)"
    by (simp add: frontDoor_device)
  have x1: "?xAddrs
      = ValueForPathString frontDoor ''Envelope.Body.ProbeMatches.ProbeMatch.XAddrs''"
    by (simp add: frontDoor_def probeMatch_def ValueForPathString_def)
  have sp: "(\<forall>c \<in> set ?xAddrs. isSpace c \<longrightarrow> c = CHR '' '') \<and> \<not> HasPrefix ?xAddrs '' ''"
    by (simp add: isSpace_def HasPrefix_def)
  from XAddr_of_accepted_reply
    [of sampleNewMapXml "''datagram 1''" frontDoor "''uuid:7f3a''" ?dev1 ?xAddrs, OF sample1 a1 x1]
  have first: "XAddr ?dev1 = takeWhile (\<lambda>c. c \<noteq> CHR '' '') ?xAddrs"
    and token: "XAddr ?dev1 = specFirstToken ?xAddrs"
    using sp by blast+
  from first have "XAddr ?dev1 = ''http://192.168.1.10/onvif/device_service''"
    by simp
  with token show ?thesis by simp
qed

text \<open>
  As the specification words it, with any whitespace as the separator, the claim
  fails: a list whose two addresses are separated by a line feed has no space, and the
  whole list becomes the \<open>XAddr\<close>.
\<close>

theorem XAddr_counterexample:
  "readDiscoveryResponse sampleNewMapXml ''uuid:7f3a'' ''datagram 6''
     = (\<lparr>ID = '':929a9e85-192b'', Name = [],
         XAddr = ''http://192.168.1.14/onvif/device_service'' @ [CHR 0x0A]
                   @ ''http://192.168.1.14:8080/onvif''\<rparr>, None)
   \<and> specFirstToken
       (ValueForPathString newlineList ''Envelope.Body.ProbeMatches.ProbeMatch.XAddrs'')
     = ''http://192.168.1.14/onvif/device_service''
   \<and> ''http://192.168.1.14/onvif/device_service'' @ [CHR 0x0A]
        @ ''http://192.168.1.14:8080/onvif''
      \<noteq> ''http://192.168.1.14/onvif/device_service''"
proof -
  have "specFirstToken
       (ValueForPathString newlineList ''Envelope.Body.ProbeMatches.ProbeMatch.XAddrs'')
     = ''http://192.168.1.14/onvif/device_service''"
    by (simp add: newlineList_def probeMatch_def ValueForPathString_def specFirstToken_def
        isSpace_def)
  then show ?thesis
    using newlineList_device by simp
qed

subsection \<open>How the call ends\<close>

text \<open>
  C7. When set-up succeeds and the first read already reports a timeout, the call
  returns the empty list of devices and no error: the timeout ends the loop and is not
  passed on.
\<close>

theorem timeout_without_replies:
  assumes "setupSucceeds net"
    and "readFromUDP net = Failed err # reads"
    and "isTimeout err"
  shows "StartDiscovery NewMapXml net = Some ([], None)"
  using assms by (simp add: StartDiscovery_open)

theorem timeout_without_replies_witness:
  "setupSucceeds (openNetwork ''7f3a'' [Failed (NetError ''i/o timeout'' True)])
   \<and> readFromUDP (openNetwork ''7f3a'' [Failed (NetError ''i/o timeout'' True)])
       = Failed (NetError ''i/o timeout'' True) # []
   \<and> isTimeout (NetError ''i/o timeout'' True)
   \<and> StartDiscovery sampleNewMapXml
       (openNetwork ''7f3a'' [Failed (NetError ''i/o timeout'' True)]) = Some ([], None)"
proof -
  let ?net = "openNetwork ''7f3a'' [Failed (NetError ''i/o timeout'' True)]"
  have 1: "setupSucceeds ?net"
    by (rule setupSucceeds_openNetwork)
  have 2: "readFromUDP ?net = Failed (NetError ''i/o timeout'' True) # []"
    by (simp add: openNetwork_def)
  have 3: "isTimeout (NetError ''i/o timeout'' True)"
    by simp
  from 1 2 3 timeout_without_replies [OF 1 2 3] show ?thesis by blast
qed

text \<open>
  C8. When set-up succeeds and a datagram that \<open>NewMapXml\<close> cannot parse arrives after
  datagrams that did not end the call, the call returns at once with the error of the
  parser and with exactly the devices gathered before that datagram: the list the call
  would have returned had the timeout come in its place. What follows the datagram in
  the script of reads plays no part.
\<close>

theorem unparseable_payload_aborts:
  assumes "setupSucceeds net"
    and "readFromUDP net = map Received bufs @ Received buffer # reads"
    and "NewMapXml buffer = Inl msg"
    and "StartDiscovery NewMapXml
           (net\<lparr>readFromUDP := map Received bufs @ [Failed (NetError ''i/o timeout'' True)]\<rparr>)
         = Some (devices, None)"
  shows "StartDiscovery NewMapXml net = Some (devices, Some (XmlError msg))"
proof -
  let ?rid = "''uuid:'' @ uuidNewV4 net"
  have "setupSucceeds
      (net\<lparr>readFromUDP := map Received bufs @ [Failed (NetError ''i/o timeout'' True)]\<rparr>)"
    using assms(1) by (simp add: setupSucceeds_def)
  then have "readLoop NewMapXml ?rid []
      (map Received bufs @ [Failed (NetError ''i/o timeout'' True)]) = Some (devices, None)"
    using assms(4) by (simp add: StartDiscovery_open)
  then have "readLoop NewMapXml ?rid [] (map Received bufs @ Received buffer # reads)
      = readLoop NewMapXml ?rid devices (Received buffer # reads)"
    by (rule readLoop_until_timeout)
  then show ?thesis
    using assms(1,2,3) by (simp add: StartDiscovery_open readDiscoveryResponse_unparsed)
qed

theorem unparseable_payload_aborts_witness:
  "sampleNewMapXml ''<Envelope'' = Inl ''xml: syntax error''
   \<and> StartDiscovery sampleNewMapXml
       (openNetwork ''7f3a''
          [Received ''datagram 1'', Received ''<Envelope'', Received ''datagram 2'',
           Failed (NetError ''i/o timeout'' True)])
     = Some ([\<lparr>ID = '':4d454930-c4d6'', Name = ''Front Door'',
                XAddr = ''http://192.168.1.10/onvif/device_service''\<rparr>],
             Some (XmlError ''xml: syntax error''))"
proof -
  let ?net = "openNetwork ''7f3a''
    [Received ''datagram 1'', Received ''<Envelope'', Received ''datagram 2'',
     Failed (NetError ''i/o timeout'' True)]"
  let ?dev = "\<lparr>ID = '':4d454930-c4d6'', Name = ''Front Door'',
    XAddr = ''http://192.168.1.10/onvif/device_service''\<rparr>"
  have 1: "setupSucceeds ?net"
    by (rule setupSucceeds_openNetwork)
  have 2: "readFromUDP ?net = map Received [''datagram 1''] @ Received ''<Envelope''
      # [Received ''datagram 2'', Failed (NetError ''i/o timeout'' True)]"
    by (simp add: openNetwork_def)
  have 4: "StartDiscovery sampleNewMapXml
      (?net\<lparr>readFromUDP := map Received [''datagram 1'']
         @ [Failed (NetError ''i/o timeout'' True)]\<rparr>) = Some ([?dev], None)"
    by (simp add: StartDiscovery_def openNetwork_def frontDoor_device)
  from sample0 unparseable_payload_aborts [OF 1 2 sample0 4] show ?thesis by blast
qed

text \<open>
  C9. When one of the five set-up calls fails (the two address resolutions, the
  acquisition of the endpoint, the arming of the deadline, the send), the call returns
  the error of a failed call with the empty list of devices, and does so whatever the
  reads would deliver and whatever the parser would make of it: no reply is processed.
\<close>

theorem setup_failure_no_results:
  assumes "resolveLocal net \<noteq> None \<or> resolveMulticast net \<noteq> None \<or> listenUDP net \<noteq> None
           \<or> setDeadline net \<noteq> None \<or> writeToUDP net \<noteq> None"
  shows "\<exists>err. Some err \<in> {resolveLocal net, resolveMulticast net, listenUDP net,
                              setDeadline net, writeToUDP net}
           \<and> StartDiscovery NewMapXml net = Some ([], Some err)
           \<and> (\<forall>parser reads. StartDiscovery parser (net\<lparr>readFromUDP := reads\<rparr>)
                  = Some ([], Some err))"
  using assms
  by (auto simp: StartDiscovery_def split: option.splits)

theorem setup_failure_no_results_witness:
  "writeToUDP ((openNetwork ''7f3a''
       [Received ''datagram 1'', Failed (NetError ''i/o timeout'' True)])
       \<lparr>writeToUDP := Some (NetError ''sendto: network is unreachable'' False)\<rparr>) \<noteq> None
   \<and> StartDiscovery sampleNewMapXml
       ((openNetwork ''7f3a''
          [Received ''datagram 1'', Failed (NetError ''i/o timeout'' True)])
          \<lparr>writeToUDP := Some (NetError ''sendto: network is unreachable'' False)\<rparr>)
     = Some ([], Some (NetError ''sendto: network is unreachable'' False))"
proof -
  let ?net = "(openNetwork ''7f3a''
       [Received ''datagram 1'', Failed (NetError ''i/o timeout'' True)])
       \<lparr>writeToUDP := Some (NetError ''sendto: network is unreachable'' False)\<rparr>"
  have w: "writeToUDP ?net \<noteq> None"
    by simp
  then have "resolveLocal ?net \<noteq> None \<or> resolveMulticast ?net \<noteq> None
      \<or> listenUDP ?net \<noteq> None \<or> setDeadline ?net \<noteq> None \<or> writeToUDP ?net \<noteq> None"
    by blast
  from setup_failure_no_results [OF this, of sampleNewMapXml]
  obtain err where
    "Some err \<in> {resolveLocal ?net, resolveMulticast ?net, listenUDP ?net,
                   setDeadline ?net, writeToUDP ?net}"
    and run: "StartDiscovery sampleNewMapXml ?net = Some ([], Some err)"
    by blast
  then have "err = NetError ''sendto: network is unreachable'' False"
    by (simp add: openNetwork_def)
  with w run show ?thesis by simp
qed

subsection \<open>The device returned with an error\<close>

text \<open>
  C10. Whenever \<open>readDiscoveryResponse\<close> returns an error, the device it returns with it
  is \<open>Device{}\<close>: its \<open>ID\<close>, \<open>Name\<close> and \<open>XAddr\<close> are empty.
\<close>

theorem error_returns_zero_device:
  assumes "readDiscoveryResponse NewMapXml messageID buffer = (device, Some err)"
  shows "device = \<lparr>ID = [], Name = [], XAddr = []\<rparr>"
  using assms
  by (auto simp: readDiscoveryResponse_def Let_def split: sum.splits if_splits)

theorem error_returns_zero_device_witness:
  "snd (readDiscoveryResponse sampleNewMapXml ''uuid:7f3a'' ''<Envelope'')
     = Some (XmlError ''xml: syntax error'')
   \<and> fst (readDiscoveryResponse sampleNewMapXml ''uuid:7f3a'' ''<Envelope'')
     = \<lparr>ID = [], Name = [], XAddr = []\<rparr>
   \<and> snd (readDiscoveryResponse sampleNewMapXml ''uuid:7f3a'' ''datagram 3'')
     = Some errWrongDiscoveryResponse
   \<and> fst (readDiscoveryResponse sampleNewMapXml ''uuid:7f3a'' ''datagram 3'')
     = \<lparr>ID = [], Name = [], XAddr = []\<rparr>"
proof -
  let ?r0 = "readDiscoveryResponse sampleNewMapXml ''uuid:7f3a'' ''<Envelope''"
  let ?r3 = "readDiscoveryResponse sampleNewMapXml ''uuid:7f3a'' ''datagram 3''"
  have e0: "snd ?r0 = Some (XmlError ''xml: syntax error'')"
    by (simp add: readDiscoveryResponse_unparsed sample0)
  have e3: "snd ?r3 = Some errWrongDiscoveryResponse"
    by (simp add: stranger_device)
  have "?r0 = (fst ?r0, Some (XmlError ''xml: syntax error''))"
    using e0 by (simp add: prod_eq_iff)
  then have d0: "fst ?r0 = \<lparr>ID = [], Name = [], XAddr = []\<rparr>"
    by (rule error_returns_zero_device)
  have "?r3 = (fst ?r3, Some errWrongDiscoveryResponse)"
    using e3 by (simp add: prod_eq_iff)
  then have d3: "fst ?r3 = \<lparr>ID = [], Name = [], XAddr = []\<rparr>"
    by (rule error_returns_zero_device)
  from e0 d0 e3 d3 show ?thesis by blast
qed

end
